theory Spec2Isabelle
  imports
    Main
    "HOL-Library.Log_Nat"
    "HOL-Library.Sublist"
    "HOL-Library.Char_ord"
    "HOL-Library.List_Lexorder"
begin

section \<open>Python arithmetic used by the size computation\<close>

text \<open>
  The size computation of \<^verbatim>\<open>resize_image\<close> is
  \<^verbatim>\<open>int((max_size / width) * height)\<close>: a true division of two ints (a binary64
  float, correctly rounded), a product of that float with an int (the int is converted
  to a float, the product is rounded again) and a truncation toward zero.

  A finite float is modelled by the rational it denotes. \<open>float_round\<close> is rounding to
  the nearest number with a 53-bit significand, ties to even, with no bound on the
  exponent: it is the binary64 rounding for every value whose magnitude lies in the
  normal range (from \<open>2 powi -1022\<close> up to, not including, \<open>2 powi 1024\<close>). Image sizes are
  host 32-bit integers, so every quotient and product below is in that range.
\<close>

definition round_half_even :: "rat \<Rightarrow> int" where
  "round_half_even x =
     (let n = \<lfloor>x\<rfloor>; d = x - of_int n
      in if d < 1 / 2 then n
         else if 1 / 2 < d then n + 1
         else if even n then n else n + 1)"

text \<open>\<open>float_exponent x\<close> is the \<open>e\<close> with \<open>2 powi e \<le> x < 2 powi (e + 1)\<close>, for positive \<open>x\<close>.\<close>

definition float_exponent :: "rat \<Rightarrow> int" where
  "float_exponent x =
     (let (a, b) = quotient_of x; d = bitlen a - bitlen b
      in if 2 powi d \<le> x then d else d - 1)"

definition float_round :: "rat \<Rightarrow> rat" where
  "float_round x =
     (if x = 0 then 0
      else let ulp = 2 powi (float_exponent \<bar>x\<bar> - 52)
           in of_int (round_half_even (x / ulp)) * ulp)"

text \<open>
  Python's \<^verbatim>\<open>a / b\<close> on ints. Both call sites divide by a size already checked to be
  positive, so the \<^verbatim>\<open>ZeroDivisionError\<close> of \<^verbatim>\<open>b == 0\<close> is not reachable from them.
\<close>

definition py_truediv :: "int \<Rightarrow> int \<Rightarrow> rat" where
  "py_truediv a b = float_round (of_int a / of_int b)"

text \<open>Python's \<^verbatim>\<open>x * n\<close> for a float \<open>x\<close> and an int \<open>n\<close>.\<close>

definition py_float_mul_int :: "rat \<Rightarrow> int \<Rightarrow> rat" where
  "py_float_mul_int x n = float_round (x * float_round (of_int n))"

text \<open>Python's \<^verbatim>\<open>int(x)\<close> on a float: truncation toward zero.\<close>

definition py_int :: "rat \<Rightarrow> int" where
  "py_int x = (if 0 \<le> x then \<lfloor>x\<rfloor> else \<lceil>x\<rceil>)"

section \<open>Data model\<close>

type_synonym path = "string list"

text \<open>
  The exceptions the script raises itself, and \<open>HostError\<close> for any exception raised by a
  host operator (import, export, image scaling, directory creation).
  \<open>MissingValue\<close> and \<open>InvalidMaxSize\<close> are the two \<^verbatim>\<open>ValueError\<close>s of the script,
  \<open>InputDirNotFound\<close> its \<^verbatim>\<open>FileNotFoundError\<close>, \<open>NotRelative\<close> the \<^verbatim>\<open>ValueError\<close> of
  \<^verbatim>\<open>Path.relative_to\<close>.
\<close>

datatype exn =
    MissingValue string
  | InvalidMaxSize string
  | InputDirNotFound path
  | NotRelative path path
  | HostError string

record image =
  img_name :: string
  img_size :: "int \<times> int"

text \<open>The host operation \<^verbatim>\<open>img.scale(new_width, new_height)\<close>: the scaled image, or an exception.\<close>

type_synonym scale_op = "image \<Rightarrow> int \<Rightarrow> int \<Rightarrow> exn + image"

section \<open>Size decision and transform\<close>

text \<open>Lines 25 to 30 of \<^verbatim>\<open>resize_image\<close>: the size handed to \<^verbatim>\<open>img.scale\<close>.\<close>

definition new_size :: "int \<Rightarrow> int \<Rightarrow> int \<Rightarrow> int \<times> int" where
  "new_size width height max_size =
     (if width \<ge> height
      then (max_size, max 1 (py_int (py_float_mul_int (py_truediv max_size width) height)))
      else (max 1 (py_int (py_float_mul_int (py_truediv max_size height) width)), max_size))"

text \<open>
  \<^verbatim>\<open>resize_image\<close>. The image is mutated in place by the source; the model returns the
  flag together with the image as it is afterwards. \<^verbatim>\<open>hasattr(img, "size")\<close> holds for
  every \<open>image\<close>.
\<close>

fun resize_image :: "scale_op \<Rightarrow> image option \<Rightarrow> int \<Rightarrow> exn + (bool \<times> image option)" where
  "resize_image sc None max_size = Inr (False, None)"
| "resize_image sc (Some img) max_size =
     (let (width, height) = img_size img
      in if width \<le> 0 \<or> height \<le> 0 then Inr (False, Some img)
         else if width \<le> max_size \<and> height \<le> max_size then Inr (False, Some img)
         else let (new_width, new_height) = new_size width height max_size
              in case sc img new_width new_height of
                   Inl e \<Rightarrow> Inl e
                 | Inr img' \<Rightarrow> Inr (True, Some img'))"

text \<open>
  The size formula in the words of the specification: the larger axis becomes the bound,
  the smaller one the exact quotient \<open>M * smaller / larger\<close> truncated toward zero and
  raised to at least 1; the width counts as the larger axis on a tie.
\<close>

definition spec_new_size :: "int \<Rightarrow> int \<Rightarrow> int \<Rightarrow> int \<times> int" where
  "spec_new_size w h M =
     (if w \<ge> h then (M, max 1 ((M * h) div w)) else (max 1 ((M * w) div h), M))"

text \<open>A host scaling that succeeds and sets the requested size, for concrete runs.\<close>

definition scale_ok :: scale_op where
  "scale_ok img w h = Inr (img\<lparr>img_size := (w, h)\<rparr>)"

section \<open>Materials, the host document and the file system\<close>

text \<open>
  Image datablocks are shared objects: several nodes of several materials may refer to
  the same one, and a Python set of images holds each object once. An image is therefore
  referred to by a handle (\<open>image_ref\<close>) into a store of the document.
\<close>

type_synonym image_ref = nat

record node =
  node_type :: string
  node_image :: "image_ref option"

record material =
  mat_name :: string
  use_nodes :: bool
  node_tree :: "node list option"

datatype fs_entry = Directory | File string

text \<open>One line of output for each \<^verbatim>\<open>log(...)\<close> call of the script, with the values it formats.\<close>

datatype log_line =
    LProcessing path
  | LResized string int int int int
  | LKept string int int
  | LWarning string exn
  | LTexturesResized nat
  | LExported path
  | LNoGlbFiles path
  | LRule
  | LTitle
  | LInput path
  | LOutput path
  | LMax int
  | LFiles nat
  | LBlank
  | LSkipping path
  | LError path exn
  | LDone
  | LProcessed nat
  | LSkipped nat
  | LFailed nat

text \<open>
  Everything outside the script: the host's current document (\<^verbatim>\<open>bpy.data.materials\<close> and
  the image datablocks), the file system, and the output stream.
\<close>

record world =
  materials :: "material option list"
  images :: "image_ref \<Rightarrow> image"
  fs :: "path \<rightharpoonup> fs_entry"
  stdout :: "log_line list"

text \<open>
  The operations the script calls and does not define. An operation that raises returns
  \<open>Inl\<close> and leaves the world as it was before the call.
  \<^item> \<open>read_factory_settings\<close>: \<^verbatim>\<open>bpy.ops.wm.read_factory_settings(use_empty=True)\<close>
  \<^item> \<open>set_use_global_undo\<close>: the assignment to \<^verbatim>\<open>preferences.edit.use_global_undo\<close>
  \<^item> \<open>import_gltf\<close>, \<open>export_gltf\<close>: \<^verbatim>\<open>bpy.ops.import_scene.gltf\<close>, \<^verbatim>\<open>bpy.ops.export_scene.gltf\<close>
  \<^item> \<open>scale\<close>: \<^verbatim>\<open>img.scale\<close>
  \<^item> \<open>mkdir\<close>: \<^verbatim>\<open>Path.mkdir(parents=True, exist_ok=True)\<close>
  \<^item> \<open>path_of_str\<close>: \<^verbatim>\<open>Path(s).expanduser()\<close>; \<open>resolve\<close>: \<^verbatim>\<open>Path.resolve\<close>
  \<^item> \<open>rglob_glb\<close>: \<^verbatim>\<open>input_dir.rglob("*.glb")\<close>
  \<^item> \<open>int_of_str\<close>: Python's \<^verbatim>\<open>int(s)\<close>, \<open>None\<close> when it raises
\<close>

record host =
  read_factory_settings :: "world \<Rightarrow> exn + world"
  set_use_global_undo :: "bool \<Rightarrow> world \<Rightarrow> exn + world"
  import_gltf :: "path \<Rightarrow> world \<Rightarrow> exn + world"
  scale :: scale_op
  mkdir :: "path \<Rightarrow> world \<Rightarrow> exn + world"
  export_gltf :: "path \<Rightarrow> world \<Rightarrow> exn + world"
  path_of_str :: "string \<Rightarrow> path"
  resolve :: "path \<Rightarrow> path"
  rglob_glb :: "path \<Rightarrow> world \<Rightarrow> path list"
  int_of_str :: "string \<Rightarrow> int option"

text \<open>\<^verbatim>\<open>log(msg)\<close>: one more line on the output stream.\<close>

definition log_msg :: "log_line \<Rightarrow> world \<Rightarrow> world" where
  "log_msg msg w = w\<lparr>stdout := stdout w @ [msg]\<rparr>"

text \<open>\<^verbatim>\<open>Path.exists\<close>.\<close>

definition path_exists :: "path \<Rightarrow> world \<Rightarrow> bool" where
  "path_exists p w = (fs w p \<noteq> None)"

text \<open>\<^verbatim>\<open>Path.relative_to\<close>: the path below \<open>base\<close>, or a \<^verbatim>\<open>ValueError\<close>.\<close>

definition relative_to :: "path \<Rightarrow> path \<Rightarrow> exn + path" where
  "relative_to p base =
     (if prefix base p then Inr (drop (length base) p) else Inl (NotRelative p base))"

section \<open>Material-to-image resolution\<close>

text \<open>The loop of \<^verbatim>\<open>get_images_from_material\<close> over the nodes, adding to the set \<open>imgs\<close>.\<close>

fun collect_node_images :: "node list \<Rightarrow> image_ref set \<Rightarrow> image_ref set" where
  "collect_node_images [] imgs = imgs"
| "collect_node_images (n # ns) imgs =
     collect_node_images ns
       (if node_type n = ''TEX_IMAGE'' \<and> node_image n \<noteq> None
        then (case node_image n of Some i \<Rightarrow> insert i imgs | None \<Rightarrow> imgs)
        else imgs)"

fun get_images_from_material :: "material option \<Rightarrow> image_ref set" where
  "get_images_from_material None = {}"
| "get_images_from_material (Some mat) =
     (if \<not> use_nodes mat \<or> node_tree mat = None then {}
      else (case node_tree mat of
              Some nodes \<Rightarrow> collect_node_images nodes {}
            | None \<Rightarrow> {}))"

section \<open>Command line\<close>



section \<open>Per-file processing\<close>

text \<open>Lines 100 to 103 of \<^verbatim>\<open>process_model\<close>: the images of the materials named \<^verbatim>\<open>LV_...\<close>.\<close>

fun collect_images :: "material option list \<Rightarrow> image_ref set \<Rightarrow> image_ref set" where
  "collect_images [] images_to_resize = images_to_resize"
| "collect_images (mat # mats) images_to_resize =
     collect_images mats
       (case mat of
          None \<Rightarrow> images_to_resize
        | Some m \<Rightarrow>
            if prefix ''LV_'' (mat_name m)
            then images_to_resize \<union> get_images_from_material mat
            else images_to_resize)"

text \<open>
  Lines 106 to 116: the resize loop, one iteration for each image of the list, with the
  \<^verbatim>\<open>try\<close>/\<^verbatim>\<open>except Exception\<close> around the body. A Python set is iterated in an order
  the language does not fix; \<open>process_model\<close> below runs the loop over the handles in
  increasing order.
\<close>

fun resize_images :: "host \<Rightarrow> int \<Rightarrow> image_ref list \<Rightarrow> world \<times> nat \<Rightarrow> world \<times> nat" where
  "resize_images H max_size [] (wd, resized_count) = (wd, resized_count)"
| "resize_images H max_size (r # rs) (wd, resized_count) =
     (let img = images wd r; (w, h) = img_size img
      in case resize_image (scale H) (Some img) max_size of
           Inr (resized, after) \<Rightarrow>
             (let img' = (case after of Some i \<Rightarrow> i | None \<Rightarrow> img);
                  wd' = wd\<lparr>images := (images wd)(r := img')\<rparr>
              in if resized
                 then resize_images H max_size rs
                        (log_msg (LResized (img_name img') w h (fst (img_size img')) (snd (img_size img'))) wd',
                         resized_count + 1)
                 else resize_images H max_size rs
                        (log_msg (LKept (img_name img') w h) wd', resized_count))
         | Inl e \<Rightarrow>
             resize_images H max_size rs (log_msg (LWarning (img_name img) e) wd, resized_count))"

definition process_model :: "host \<Rightarrow> path \<Rightarrow> path \<Rightarrow> int \<Rightarrow> world \<Rightarrow> (exn + unit) \<times> world" where
  "process_model H input_path output_path max_size w0 =
     (let w1 = log_msg (LProcessing input_path) w0
      in case read_factory_settings H w1 of
           Inl e \<Rightarrow> (Inl e, w1)
         | Inr w2 \<Rightarrow>
        (let w3 = (case set_use_global_undo H False w2 of Inl e \<Rightarrow> w2 | Inr w \<Rightarrow> w)
         in case import_gltf H input_path w3 of
              Inl e \<Rightarrow> (Inl e, w3)
            | Inr w4 \<Rightarrow>
           (let images_to_resize = collect_images (materials w4) {};
                (w5, resized_count) =
                   resize_images H max_size (sorted_list_of_set images_to_resize) (w4, 0);
                w6 = log_msg (LTexturesResized resized_count) w5
            in case mkdir H (butlast output_path) w6 of
                 Inl e \<Rightarrow> (Inl e, w6)
               | Inr w7 \<Rightarrow>
              (case export_gltf H output_path w7 of
                 Inl e \<Rightarrow> (Inl e, w7)
               | Inr w8 \<Rightarrow> (Inr (), log_msg (LExported output_path) w8)))))"

section \<open>Batch driver\<close>

record counters =
  processed :: nat
  skipped :: nat
  failed :: nat

text \<open>Lines 178 to 197 of \<^verbatim>\<open>main\<close>: the loop over the discovered files.\<close>

fun batch_loop ::
  "host \<Rightarrow> path \<Rightarrow> path \<Rightarrow> int \<Rightarrow> path list \<Rightarrow> world \<times> counters \<Rightarrow> (exn + counters) \<times> world"
where
  "batch_loop H input_dir output_dir max_size [] (w, c) = (Inr c, w)"
| "batch_loop H input_dir output_dir max_size (glb_file # rest) (w, c) =
     (case relative_to glb_file input_dir of
        Inl e \<Rightarrow> (Inl e, w)
      | Inr rel \<Rightarrow>
         (let out_file = output_dir @ rel
          in if path_exists out_file w
             then batch_loop H input_dir output_dir max_size rest
                    (log_msg LBlank (log_msg (LSkipping rel) w), c\<lparr>skipped := skipped c + 1\<rparr>)
             else (case process_model H glb_file out_file max_size w of
                     (Inr u, w') \<Rightarrow>
                       batch_loop H input_dir output_dir max_size rest
                         (log_msg LBlank w', c\<lparr>processed := processed c + 1\<rparr>)
                   | (Inl e, w') \<Rightarrow>
                       batch_loop H input_dir output_dir max_size rest
                         (log_msg LBlank (log_msg (LError rel e) w'), c\<lparr>failed := failed c + 1\<rparr>))))"


text \<open>
  Lines 153 to 204: \<^verbatim>\<open>main\<close> once the configuration is resolved. \<^verbatim>\<open>sorted\<close> orders
  the paths part by part, each part as a string.
\<close>

definition run_batch :: "host \<Rightarrow> path \<Rightarrow> path \<Rightarrow> int \<Rightarrow> world \<Rightarrow> (exn + unit) \<times> world" where
  "run_batch H input_dir0 output_dir0 max_size w =
     (let input_dir = resolve H input_dir0;
          output_dir = resolve H output_dir0
      in case mkdir H output_dir w of
           Inl e \<Rightarrow> (Inl e, w)
         | Inr w1 \<Rightarrow>
             if \<not> path_exists input_dir w1 then (Inl (InputDirNotFound input_dir), w1)
             else (let glb_files = sort (rglob_glb H input_dir w1)
                   in if glb_files = [] then (Inr (), log_msg (LNoGlbFiles input_dir) w1)
                      else (let w2 = foldl (\<lambda>w l. log_msg l w) w1
                                       [LRule, LTitle, LRule, LInput input_dir, LOutput output_dir,
                                        LMax max_size, LFiles (length glb_files), LBlank]
                            in case batch_loop H input_dir output_dir max_size glb_files
                                      (w2, \<lparr>processed = 0, skipped = 0, failed = 0\<rparr>) of
                                 (Inl e, w3) \<Rightarrow> (Inl e, w3)
                               | (Inr c, w3) \<Rightarrow>
                                   (Inr (),
                                    foldl (\<lambda>w l. log_msg l w) w3
                                      [LRule, LDone, LRule, LProcessed (processed c),
                                       LSkipped (skipped c), LFailed (failed c)]))))"


section \<open>A concrete document and host\<close>

text \<open>
  A document in which the image with handle 1 is used twice by \<^verbatim>\<open>LV_body\<close>, once by
  \<^verbatim>\<open>LV_trim\<close> and once by \<^verbatim>\<open>Other\<close>, image 2 only by \<^verbatim>\<open>Other\<close> and image 3 only by
  \<^verbatim>\<open>lv_wood\<close>; and a host whose operations succeed on it.
\<close>

definition other_material :: material where
  "other_material =
     \<lparr>mat_name = ''Other'', use_nodes = True,
      node_tree = Some [\<lparr>node_type = ''TEX_IMAGE'', node_image = Some 1\<rparr>,
                        \<lparr>node_type = ''TEX_IMAGE'', node_image = Some 2\<rparr>]\<rparr>"

definition shared_materials :: "material option list" where
  "shared_materials =
     [Some \<lparr>mat_name = ''LV_body'', use_nodes = True,
            node_tree = Some [\<lparr>node_type = ''TEX_IMAGE'', node_image = Some 1\<rparr>,
                              \<lparr>node_type = ''BSDF_PRINCIPLED'', node_image = None\<rparr>,
                              \<lparr>node_type = ''TEX_IMAGE'', node_image = Some 1\<rparr>,
                              \<lparr>node_type = ''TEX_IMAGE'', node_image = None\<rparr>]\<rparr>,
      Some other_material,
      Some \<lparr>mat_name = ''LV_trim'', use_nodes = True,
            node_tree = Some [\<lparr>node_type = ''TEX_IMAGE'', node_image = Some 1\<rparr>]\<rparr>,
      Some \<lparr>mat_name = ''lv_wood'', use_nodes = True,
            node_tree = Some [\<lparr>node_type = ''TEX_IMAGE'', node_image = Some 3\<rparr>]\<rparr>]"

definition shared_world :: world where
  "shared_world =
     \<lparr>materials = shared_materials,
      images = (\<lambda>r. if r = 1 then \<lparr>img_name = ''atlas'', img_size = (2048, 1024)\<rparr>
                    else \<lparr>img_name = ''detail'', img_size = (4096, 4096)\<rparr>),
      fs = Map.empty,
      stdout = []\<rparr>"

definition failing_scale :: scale_op where
  "failing_scale img w h = Inl (HostError ''no image data'')"

definition demo_host :: host where
  "demo_host =
     \<lparr>read_factory_settings = (\<lambda>w. Inr (w\<lparr>materials := []\<rparr>)),
      set_use_global_undo = (\<lambda>b w. Inr w),
      import_gltf = (\<lambda>p w. if p = [''in'', ''a'', ''model1.glb'']
                             then Inr (w\<lparr>materials := shared_materials, images := images shared_world\<rparr>)
                             else Inl (HostError ''import failed'')),
      scale = scale_ok,
      mkdir = (\<lambda>p w. Inr (w\<lparr>fs := (fs w)(p \<mapsto> Directory)\<rparr>)),
      export_gltf = (\<lambda>p w. Inr (w\<lparr>fs := (fs w)(p \<mapsto> File ''glb'')\<rparr>)),
      path_of_str = (\<lambda>s. [s]),
      resolve = (\<lambda>p. p),
      rglob_glb = (\<lambda>p w. [[''in'', ''b'', ''model2.glb''], [''in'', ''a'', ''model1.glb'']]),
      int_of_str = (\<lambda>s. if s = ''256'' then Some 256 else if s = ''0'' then Some 0 else None)\<rparr>"

text \<open>
  A file system with two models under \<^verbatim>\<open>in\<close>; the host above imports the first and
  fails on the second. \<open>done_world\<close> has an output for each of them already;
  \<open>failing_scale_host\<close> is the same host with an image scaling that always raises.
  \<open>first_run\<close> and \<open>second_run\<close> are two consecutive runs of the script.
\<close>

definition demo_world :: world where
  "demo_world =
     \<lparr>materials = [],
      images = (\<lambda>r. \<lparr>img_name = '''', img_size = (0, 0)\<rparr>),
      fs = [[''in''] \<mapsto> Directory,
            [''in'', ''a''] \<mapsto> Directory,
            [''in'', ''a'', ''model1.glb''] \<mapsto> File ''glTF'',
            [''in'', ''b''] \<mapsto> Directory,
            [''in'', ''b'', ''model2.glb''] \<mapsto> File ''damaged''],
      stdout = []\<rparr>"


definition failing_scale_host :: host where
  "failing_scale_host = demo_host\<lparr>scale := failing_scale\<rparr>"




section \<open>Properties of the float model\<close>

lemma round_half_even_error: "\<bar>of_int (round_half_even y) - y\<bar> \<le> 1 / 2"
proof -
  have "of_int \<lfloor>y\<rfloor> \<le> y" "y < of_int \<lfloor>y\<rfloor> + 1" by linarith+
  then show ?thesis
    by (auto simp: round_half_even_def Let_def)
qed

lemma round_half_even_of_int [simp]: "round_half_even (of_int n) = n"
  by (simp add: round_half_even_def)

lemma bitlen_pow_bounds:
  assumes "0 < a"
  shows "(2::rat) powi (bitlen a - 1) \<le> of_int a" "of_int a < (2::rat) powi (bitlen a)"
proof -
  from bitlen_bounds[OF assms]
  have lo: "2 ^ nat (bitlen a - 1) \<le> a" and hi: "a < 2 ^ nat (bitlen a)"
    by auto
  have pos: "1 \<le> bitlen a" using assms by (simp add: bitlen_alt_def)
  have "(of_int (2 ^ nat (bitlen a - 1)) :: rat) \<le> of_int a"
    using lo by (simp only: of_int_le_iff)
  then show "(2::rat) powi (bitlen a - 1) \<le> of_int a"
    using pos by (simp add: power_int_def)
  have "(of_int a :: rat) < of_int (2 ^ nat (bitlen a))"
    using hi by (simp only: of_int_less_iff)
  then show "of_int a < (2::rat) powi (bitlen a)"
    using pos by (simp add: power_int_def)
qed

lemma float_exponent_bounds:
  assumes "0 < x"
  shows "2 powi (float_exponent x) \<le> x" "x < 2 powi (float_exponent x + 1)"
proof -
  obtain a b where q: "quotient_of x = (a, b)" by (cases "quotient_of x")
  have b: "0 < b" using q quotient_of_denom_pos by blast
  have x: "x = of_int a / of_int b" using q by (rule quotient_of_div)
  have a: "0 < a" using assms b x by (simp add: zero_less_divide_iff)
  let ?d = "bitlen a - bitlen b"
  note A = bitlen_pow_bounds[OF a] and B = bitlen_pow_bounds[OF b]
  have bpos: "(0::rat) < of_int b" using b by simp
  have up: "x < 2 powi (?d + 1)"
  proof -
    have "x < 2 powi (bitlen a) / 2 powi (bitlen b - 1)"
      unfolding x using A(2) B(1) bpos a
      by (intro frac_less) auto
    also have "\<dots> = 2 powi (?d + 1)"
      by (simp add: power_int_diff[symmetric] algebra_simps)
    finally show ?thesis .
  qed
  have lo: "2 powi (?d - 1) \<le> x"
  proof -
    have "(2::rat) powi (?d - 1) = 2 powi (bitlen a - 1) / 2 powi (bitlen b)"
      by (simp add: power_int_diff[symmetric] algebra_simps)
    also have "\<dots> \<le> x"
      unfolding x using A(1) B(2) bpos a
      by (intro frac_le) auto
    finally show ?thesis .
  qed
  show "2 powi (float_exponent x) \<le> x"
    using lo by (simp add: float_exponent_def q Let_def)
  show "x < 2 powi (float_exponent x + 1)"
    using up assms by (auto simp add: float_exponent_def q Let_def)
qed

text \<open>Rounding moves a positive value by at most half a unit in the last place.\<close>

lemma float_round_error:
  assumes "0 < x"
  shows "\<bar>float_round x - x\<bar> \<le> x / 2 ^ 53"
proof -
  let ?e = "float_exponent x"
  let ?ulp = "(2::rat) powi (?e - 52)"
  have ulp_pos: "0 < ?ulp" by simp
  have fr: "float_round x = of_int (round_half_even (x / ?ulp)) * ?ulp"
    using assms by (simp add: float_round_def Let_def)
  have "\<bar>float_round x - x\<bar> = \<bar>of_int (round_half_even (x / ?ulp)) - x / ?ulp\<bar> * ?ulp"
  proof -
    have "float_round x - x = (of_int (round_half_even (x / ?ulp)) - x / ?ulp) * ?ulp"
      unfolding fr using ulp_pos by (simp add: left_diff_distrib)
    then show ?thesis using ulp_pos by (simp only: abs_mult abs_of_pos)
  qed
  also have "\<dots> \<le> (1 / 2) * ?ulp"
    using round_half_even_error[of "x / ?ulp"] ulp_pos by (intro mult_right_mono) auto
  also have "\<dots> = 2 powi ?e / 2 ^ 53"
    by (simp add: power_int_diff)
  also have "\<dots> \<le> x / 2 ^ 53"
    using float_exponent_bounds(1)[OF assms] by (simp add: divide_right_mono)
  finally show ?thesis .
qed

text \<open>Converting an int below \<open>2 ^ 53\<close> to a float is exact.\<close>

lemma float_round_int_exact:
  assumes "0 < n" "n < 2 ^ 53"
  shows "float_round (of_int n) = of_int n"
proof -
  let ?x = "of_int n :: rat"
  let ?e = "float_exponent ?x"
  have xpos: "0 < ?x" using assms by simp
  have "(2::rat) powi ?e \<le> ?x" using float_exponent_bounds(1)[OF xpos] .
  also have "?x < 2 ^ 53"
    using assms(2) by (metis of_int_less_iff of_int_numeral of_int_power)
  finally have "(2::rat) powi ?e < 2 powi 53" by simp
  then have e: "?e < 53" by (rule power_int_le_imp_less_exp[rotated]) simp_all
  define k where "k = nat (52 - ?e)"
  have ulp: "(2::rat) powi (?e - 52) = 1 / 2 ^ k"
    using e by (simp add: k_def power_int_def power_one_over)
  have "?x / (2 powi (?e - 52)) = of_int (n * 2 ^ k)"
    by (simp add: ulp)
  then have "round_half_even (?x / (2 powi (?e - 52))) = n * 2 ^ k"
    by (simp only: round_half_even_of_int)
  then show ?thesis
    using xpos by (simp add: float_round_def Let_def ulp)
qed

text \<open>
  The two roundings of \<^verbatim>\<open>(M / L) * s\<close> together move the exact quotient \<open>M * s / L\<close> by
  at most three parts in \<open>2 ^ 53\<close>.
\<close>

lemma scaled_error:
  fixes M L s :: int
  assumes "0 < M" "0 < L" "0 < s" "s < 2 ^ 53"
  defines "x \<equiv> (of_int (M * s) / of_int L :: rat)"
  defines "r \<equiv> py_float_mul_int (py_truediv M L) s"
  shows "\<bar>r - x\<bar> \<le> x * 3 / 2 ^ 53" "0 \<le> r"
proof -
  let ?u = "(1::rat) / 2 ^ 53"
  let ?y = "(of_int M / of_int L :: rat)"
  define q where "q = py_truediv M L"
  define p where "p = q * of_int s"
  have ypos: "0 < ?y" using assms by simp
  have spos: "(0::rat) < of_int s" using assms by simp
  have xy: "x = ?y * of_int s" by (simp add: x_def)
  have xpos: "0 < x" unfolding xy using ypos spos by (rule mult_pos_pos)
  have fs: "float_round (of_int s) = of_int s"
    using assms by (intro float_round_int_exact) auto
  have r: "r = float_round p"
    by (simp add: r_def py_float_mul_int_def fs p_def q_def)
  have qe: "\<bar>q - ?y\<bar> \<le> ?y * ?u"
    using float_round_error[OF ypos] by (simp add: q_def py_truediv_def)
  have "\<bar>p - x\<bar> = \<bar>q - ?y\<bar> * of_int s"
    unfolding p_def xy using spos
    by (simp only: left_diff_distrib[symmetric] abs_mult abs_of_pos)
  also have "\<dots> \<le> (?y * ?u) * of_int s"
    using qe spos by (intro mult_right_mono) auto
  also have "\<dots> = x * ?u" by (simp add: xy)
  finally have pe: "\<bar>p - x\<bar> \<le> x * ?u" .
  have u_small: "?u < 1" by simp
  have "x * ?u < x * 1" using xpos u_small by (intro mult_strict_left_mono) auto
  with pe have ppos: "0 < p" and pup: "p \<le> x + x * ?u" by linarith+
  have "p * ?u \<le> (x + x * ?u) * ?u"
    using pup by (intro mult_right_mono) auto
  also have "\<dots> \<le> (x + x * 1) * ?u"
    using xpos by (intro mult_right_mono add_left_mono mult_left_mono) auto
  finally have pu: "p * ?u \<le> 2 * x * ?u" by simp
  have re: "\<bar>r - p\<bar> \<le> p * ?u"
    using float_round_error[OF ppos] by (simp add: r)
  have "\<bar>r - x\<bar> \<le> \<bar>r - p\<bar> + \<bar>p - x\<bar>" by linarith
  also have "\<dots> \<le> 2 * x * ?u + x * ?u" using re pu pe by linarith
  finally show "\<bar>r - x\<bar> \<le> x * 3 / 2 ^ 53" by simp
  have "p * ?u < p * 1" using ppos u_small by (intro mult_strict_left_mono) auto
  with re show "0 \<le> r" by linarith
qed

text \<open>
  The truncated float quotient against the exact integer quotient: never above the
  bound, at most one below \<open>M * s div L\<close>, and not above it while \<open>M * s < 2 ^ 51\<close>.
\<close>

lemma scaled_floor_bounds:
  fixes M L s :: int
  assumes "0 < M" "M < L" "0 < s" "s \<le> L" "L < 2 ^ 51"
  defines "t \<equiv> py_int (py_float_mul_int (py_truediv M L) s)"
  shows "t \<le> M" "(M * s) div L - 1 \<le> t" "M * s < 2 ^ 51 \<Longrightarrow> t \<le> (M * s) div L"
proof -
  define x :: rat where "x = of_int (M * s) / of_int L"
  define r where "r = py_float_mul_int (py_truediv M L) s"
  define k where "k = (M * s) div L"
  have Lpos: "0 < L" using assms by linarith
  have s53: "s < 2 ^ 53" using assms by simp
  note E = scaled_error[OF assms(1) Lpos assms(3) s53, folded x_def r_def]
  have t: "t = \<lfloor>r\<rfloor>" using E(2) by (simp add: t_def py_int_def r_def)
  have LR: "(0::rat) < of_int L" using Lpos by simp
  have dm: "M * s = k * L + (M * s) mod L" by (simp add: k_def)
  have m0: "0 \<le> (M * s) mod L" "(M * s) mod L < L" using Lpos by simp_all
  have xM: "x \<le> of_int M"
  proof -
    have "M * s \<le> M * L" using assms by (intro mult_left_mono) auto
    then have "(of_int (M * s) :: rat) \<le> of_int (M * L)" by (simp only: of_int_le_iff)
    then show ?thesis using LR by (simp add: x_def pos_divide_le_eq)
  qed
  have x0: "0 \<le> x" using assms Lpos by (simp add: x_def)
  have Mr: "(of_int M :: rat) < 2 ^ 51"
    using assms by (metis less_trans of_int_less_iff of_int_numeral of_int_power)
  have err: "x * 3 / 2 ^ 53 \<le> 3 / 4"
  proof -
    have "x * 3 / 2 ^ 53 \<le> 2 ^ 51 * 3 / 2 ^ 53" using xM Mr by (simp add: divide_right_mono)
    also have "\<dots> \<le> 3 / 4" by simp
    finally show ?thesis .
  qed
  have "r \<le> x + 3 / 4" using E(1) err by linarith
  moreover have "(3::rat) / 4 < 1" by simp
  ultimately have "r < of_int M + 1" using xM by linarith
  then have "r < of_int (M + 1)" by simp
  then have "\<lfloor>r\<rfloor> < M + 1" by (simp only: floor_less_iff)
  then show "t \<le> M" unfolding t by simp
  have kx: "of_int k \<le> x"
  proof -
    have "k * L \<le> M * s" using dm m0 by linarith
    then have "(of_int (k * L) :: rat) \<le> of_int (M * s)" by (simp only: of_int_le_iff)
    then show ?thesis using LR by (simp add: x_def pos_le_divide_eq)
  qed
  have "x - 3 / 4 \<le> r" using E(1) err by linarith
  moreover have "(3::rat) / 4 \<le> 1" by simp
  ultimately have "of_int k - 1 \<le> r" using kx by linarith
  then have "of_int (k - 1) \<le> r" by simp
  then have "k - 1 \<le> \<lfloor>r\<rfloor>" by (simp only: le_floor_iff)
  then show "(M * s) div L - 1 \<le> t" unfolding t k_def[symmetric] by simp
  show "t \<le> (M * s) div L" if small: "M * s < 2 ^ 51"
  proof -
    have "(k + 1) * L = k * L + L" by (simp add: algebra_simps)
    then have "M * s < (k + 1) * L" using dm m0 by linarith
    then have "M * s + 1 \<le> (k + 1) * L" by simp
    then have "(of_int (M * s + 1) :: rat) \<le> of_int ((k + 1) * L)" by (simp only: of_int_le_iff)
    then have xk: "x + 1 / of_int L \<le> of_int k + 1"
      using LR by (simp add: x_def add_divide_distrib[symmetric] pos_divide_le_eq)
    have "(of_int (M * s) :: rat) < 2 ^ 51"
      using small by (metis of_int_less_iff of_int_numeral of_int_power)
    then have "of_int (M * s) * 3 / 2 ^ 53 < (1::rat)" by simp
    then have "x * 3 / 2 ^ 53 < 1 / of_int L"
      using LR by (simp add: x_def field_simps)
    then have "r < of_int k + 1" using E(1) xk by linarith
    then have "r < of_int (k + 1)" by simp
    then have "\<lfloor>r\<rfloor> < k + 1" by (simp only: floor_less_iff)
    then show ?thesis unfolding t k_def[symmetric] by simp
  qed
qed

section \<open>The size decision\<close>

text \<open>When \<^verbatim>\<open>resize_image\<close> scales, neither requested side exceeds the bound or is below 1.\<close>

lemma new_size_bounds:
  assumes "0 < w" "0 < h" "0 < M" "\<not> (w \<le> M \<and> h \<le> M)" "w < 2 ^ 51" "h < 2 ^ 51"
  shows "fst (new_size w h M) \<le> M" "snd (new_size w h M) \<le> M"
    "1 \<le> fst (new_size w h M)" "1 \<le> snd (new_size w h M)"
proof -
  show "fst (new_size w h M) \<le> M"
  proof (cases "w \<ge> h")
    case True then show ?thesis by (simp add: new_size_def)
  next
    case False
    then have "M < h" "w \<le> h" using assms by auto
    from scaled_floor_bounds(1)[OF assms(3) this(1) assms(1) this(2) assms(6)] assms(3) False
    show ?thesis by (simp add: new_size_def)
  qed
  show "snd (new_size w h M) \<le> M"
  proof (cases "w \<ge> h")
    case True
    then have "M < w" "h \<le> w" using assms by auto
    from scaled_floor_bounds(1)[OF assms(3) this(1) assms(2) this(2) assms(5)] assms(3) True
    show ?thesis by (simp add: new_size_def)
  next
    case False then show ?thesis by (simp add: new_size_def)
  qed
  show "1 \<le> fst (new_size w h M)" "1 \<le> snd (new_size w h M)"
    using assms(3) by (auto simp: new_size_def)
qed

text \<open>The smaller side against the exact quotient, for products below \<open>2 ^ 51\<close>.\<close>

lemma minor_axis_cases:
  fixes M L s :: int
  assumes "0 < M" "M < L" "0 < s" "s \<le> L" "L < 2 ^ 51" "M * s < 2 ^ 51"
  defines "m \<equiv> max 1 (py_int (py_float_mul_int (py_truediv M L) s))"
  shows "m = max 1 ((M * s) div L) \<or> m = max 1 ((M * s) div L - 1)"
proof -
  let ?t = "py_int (py_float_mul_int (py_truediv M L) s)"
  have "(M * s) div L - 1 \<le> ?t" "?t \<le> (M * s) div L"
    using scaled_floor_bounds(2,3)[OF assms(1-5)] assms(6) by auto
  then have "?t = (M * s) div L \<or> ?t = (M * s) div L - 1" by linarith
  then show ?thesis unfolding m_def by auto
qed

text \<open>
  Claim C1. For an image of positive width \<open>w\<close> and height \<open>h\<close>, \<^verbatim>\<open>resize_image\<close>
  returns "not resized" and leaves the image as it is if and only if \<open>w \<le> M\<close> and
  \<open>h \<le> M\<close>; it hands the image to the host's scaling, with the size of \<open>new_size\<close>,
  exactly when at least one side exceeds \<open>M\<close>.
\<close>

theorem resize_image_noop_iff:
  assumes "img_size img = (w, h)" "0 < w" "0 < h"
  shows "(resize_image sc (Some img) M = Inr (False, Some img) \<longleftrightarrow> w \<le> M \<and> h \<le> M)
       \<and> (M < w \<or> M < h \<longleftrightarrow>
            resize_image sc (Some img) M =
              (case sc img (fst (new_size w h M)) (snd (new_size w h M)) of
                 Inl e \<Rightarrow> Inl e | Inr img' \<Rightarrow> Inr (True, Some img')))"
  using assms by (auto simp: split_beta split: sum.splits)

theorem resize_image_noop_iff_witness:
  "resize_image scale_ok (Some \<lparr>img_name = ''b'', img_size = (256, 256)\<rparr>) 512
      = Inr (False, Some \<lparr>img_name = ''b'', img_size = (256, 256)\<rparr>)
   \<and> resize_image scale_ok (Some \<lparr>img_name = ''a'', img_size = (2048, 1024)\<rparr>) 512
      \<noteq> Inr (False, Some \<lparr>img_name = ''a'', img_size = (2048, 1024)\<rparr>)"
proof -
  have small: "(256::int) \<le> 512" by simp
  have large: "\<not> (2048::int) \<le> 512" by simp
  have pos: "(0::int) < 256" "(0::int) < 2048" "(0::int) < 1024" by simp_all
  have sb: "img_size \<lparr>img_name = ''b'', img_size = (256, 256)\<rparr> = (256, 256)" by simp
  have sa: "img_size \<lparr>img_name = ''a'', img_size = (2048, 1024)\<rparr> = (2048, 1024)" by simp
  from resize_image_noop_iff[OF sb pos(1) pos(1), of scale_ok 512]
    resize_image_noop_iff[OF sa pos(2) pos(3), of scale_ok 512] small large
  show ?thesis by blast
qed

text \<open>
  Claim C2 on a 322 by 322 image with the bound 256. The claim gives the truncated exact
  quotient \<open>256 * 322 / 322\<close>, that is 256 by 256: a square image stays square. The
  script asks for 256 by 255: \<^verbatim>\<open>256 / 322\<close> is rounded to a float before it is
  multiplied by 322, the product falls just below 256, and \<^verbatim>\<open>int\<close> truncates it to 255.
\<close>

theorem new_size_not_exact_quotient:
  "resize_image scale_ok (Some \<lparr>img_name = ''t'', img_size = (322, 322)\<rparr>) 256
     = Inr (True, Some \<lparr>img_name = ''t'', img_size = (256, 255)\<rparr>)
   \<and> spec_new_size 322 322 256 = (256, 256)"
  by code_simp

text \<open>
  What the script does guarantee about the size it asks for. For \<open>0 < w, h < 2 ^ 51\<close>
  (every size a host 32-bit integer can hold is in this range) and \<open>0 < M < max w h\<close>,
  the larger side is exactly \<open>M\<close> (the width when \<open>w = h\<close>) and the smaller side is the
  float expression \<^verbatim>\<open>int((M / larger) * smaller)\<close>, raised to at least 1. So the larger
  of the new sides is \<open>M\<close>, the smaller is at least 1, and while
  \<open>M * smaller < 2 ^ 51\<close> the smaller side is the truncated exact quotient
  \<open>M * smaller div larger\<close> or one less than it (never below 1).
\<close>

theorem resize_image_new_size:
  assumes "img_size img = (w, h)" "0 < w" "0 < h" "0 < M" "M < max w h"
    and "w < 2 ^ 51" "h < 2 ^ 51"
  shows "resize_image sc (Some img) M =
           (case sc img (fst (new_size w h M)) (snd (new_size w h M)) of
              Inl e \<Rightarrow> Inl e | Inr img' \<Rightarrow> Inr (True, Some img'))
       \<and> max (fst (new_size w h M)) (snd (new_size w h M)) = M
       \<and> 1 \<le> min (fst (new_size w h M)) (snd (new_size w h M))
       \<and> (h \<le> w \<longrightarrow>
            new_size w h M = (M, max 1 (py_int (py_float_mul_int (py_truediv M w) h)))
          \<and> (M * h < 2 ^ 51 \<longrightarrow>
               snd (new_size w h M) = max 1 ((M * h) div w)
             \<or> snd (new_size w h M) = max 1 ((M * h) div w - 1)))
       \<and> (w < h \<longrightarrow>
            new_size w h M = (max 1 (py_int (py_float_mul_int (py_truediv M h) w)), M)
          \<and> (M * w < 2 ^ 51 \<longrightarrow>
               fst (new_size w h M) = max 1 ((M * w) div h)
             \<or> fst (new_size w h M) = max 1 ((M * w) div h - 1)))"
proof -
  have act: "\<not> (w \<le> M \<and> h \<le> M)" using assms(5) by auto
  note B = new_size_bounds[OF assms(2,3,4) act assms(6,7)]
  have 1: "resize_image sc (Some img) M =
           (case sc img (fst (new_size w h M)) (snd (new_size w h M)) of
              Inl e \<Rightarrow> Inl e | Inr img' \<Rightarrow> Inr (True, Some img'))"
    using assms(1,2,3) act by (auto simp: split_beta)
  have 2: "max (fst (new_size w h M)) (snd (new_size w h M)) = M"
    using B(1,2) by (cases "h \<le> w") (auto simp: new_size_def)
  have 3: "1 \<le> min (fst (new_size w h M)) (snd (new_size w h M))"
    using B(3,4) by simp
  have 4: "snd (new_size w h M) = max 1 ((M * h) div w)
             \<or> snd (new_size w h M) = max 1 ((M * h) div w - 1)"
    if "h \<le> w" "M * h < 2 ^ 51"
  proof -
    have "M < w" using that(1) assms(5) by auto
    from minor_axis_cases[OF assms(4) this assms(3) that(1) assms(6) that(2)] that(1)
    show ?thesis by (simp add: new_size_def)
  qed
  have 5: "fst (new_size w h M) = max 1 ((M * w) div h)
             \<or> fst (new_size w h M) = max 1 ((M * w) div h - 1)"
    if "w < h" "M * w < 2 ^ 51"
  proof -
    have "M < h" "w \<le> h" using that(1) assms(5) by auto
    from minor_axis_cases[OF assms(4) this(1) assms(2) this(2) assms(7) that(2)] that(1)
    show ?thesis by (simp add: new_size_def)
  qed
  show ?thesis
    using 1 2 3 4 5 by (simp add: new_size_def)
qed

theorem resize_image_new_size_witness:
  "max (fst (new_size 322 322 256)) (snd (new_size 322 322 256)) = 256
   \<and> 1 \<le> min (fst (new_size 322 322 256)) (snd (new_size 322 322 256))
   \<and> (snd (new_size 322 322 256) = max 1 ((256 * 322) div 322)
      \<or> snd (new_size 322 322 256) = max 1 ((256 * 322) div 322 - 1))"
proof -
  have sz: "img_size \<lparr>img_name = ''t'', img_size = (322, 322)\<rparr> = (322, 322)" by simp
  have side: "(0::int) < 322" "(0::int) < 256" "(256::int) < max 322 322" "(322::int) < 2 ^ 51"
    "(322::int) \<le> 322" "(256::int) * 322 < 2 ^ 51"
    by simp_all
  from resize_image_new_size[OF sz side(1) side(1) side(2) side(3) side(4) side(4), of scale_ok]
    side(5) side(6)
  show ?thesis by blast
qed

text \<open>
  Claim C9. If \<^verbatim>\<open>resize_image\<close> acts on a \<open>w\<close> by \<open>h\<close> image with a positive bound
  \<open>M\<close>, both sides being positive and below \<open>2 ^ 51\<close> (as every size that a host 32-bit
  integer can hold is), then both sides of the size it produces are at most \<open>M\<close>, and
  \<^verbatim>\<open>resize_image\<close> with the same bound on an image of that size returns "not resized"
  and leaves it as it is.
\<close>

theorem resize_image_idempotent:
  assumes "0 < w" "0 < h" "0 < M" "w < 2 ^ 51" "h < 2 ^ 51"
    and acts: "\<not> (w \<le> M \<and> h \<le> M)"
    and "img_size img' = new_size w h M"
  shows "fst (img_size img') \<le> M \<and> snd (img_size img') \<le> M
       \<and> resize_image sc (Some img') M = Inr (False, Some img')"
proof -
  note B = new_size_bounds[OF assms(1,2,3) acts assms(4,5)]
  obtain a b where ab: "new_size w h M = (a, b)" by (cases "new_size w h M")
  with B have "a \<le> M" "b \<le> M" by auto
  then show ?thesis using assms(7) ab by simp
qed

theorem resize_image_idempotent_witness:
  "img_size \<lparr>img_name = ''a'', img_size = (512, 256)\<rparr> = new_size 2048 1024 512
   \<and> resize_image scale_ok (Some \<lparr>img_name = ''a'', img_size = (512, 256)\<rparr>) 512
       = Inr (False, Some \<lparr>img_name = ''a'', img_size = (512, 256)\<rparr>)"
proof -
  have ns: "img_size \<lparr>img_name = ''a'', img_size = (512, 256)\<rparr> = new_size 2048 1024 512"
    by code_simp
  show ?thesis
    using ns resize_image_idempotent[of 2048 1024 512 "\<lparr>img_name = ''a'', img_size = (512, 256)\<rparr>" scale_ok, OF _ _ _ _ _ _ ns]
    by simp
qed

section \<open>Material-to-image resolution and selection\<close>

lemma collect_node_images_eq:
  "collect_node_images ns imgs =
     imgs \<union> {r. \<exists>n \<in> set ns. node_type n = ''TEX_IMAGE'' \<and> node_image n = Some r}"
  by (induction ns arbitrary: imgs) (auto split: option.splits)

lemma finite_collect_node_images: "finite imgs \<Longrightarrow> finite (collect_node_images ns imgs)"
  by (induction ns arbitrary: imgs) (auto split: option.splits)

lemma finite_get_images_from_material: "finite (get_images_from_material m)"
  by (cases m) (auto simp: finite_collect_node_images split: option.splits)

lemma collect_images_eq:
  "collect_images mats S =
     S \<union> (\<Union>m \<in> {m. Some m \<in> set mats \<and> prefix ''LV_'' (mat_name m)}.
            get_images_from_material (Some m))"
proof (induction mats arbitrary: S)
  case Nil
  then show ?case by simp
next
  case (Cons a mats)
  show ?case
  proof (cases a)
    case None
    then show ?thesis using Cons.IH[of S] by simp
  next
    case (Some m)
    show ?thesis
    proof (cases "prefix ''LV_'' (mat_name m)")
      case True
      have "collect_images (a # mats) S = collect_images mats (S \<union> get_images_from_material (Some m))"
        using Some True by simp
      also have "\<dots> = (S \<union> get_images_from_material (Some m)) \<union>
            (\<Union>m \<in> {m. Some m \<in> set mats \<and> prefix ''LV_'' (mat_name m)}.
               get_images_from_material (Some m))"
        by (rule Cons.IH)
      also have "\<dots> = S \<union> (\<Union>m \<in> {m. Some m \<in> set (a # mats) \<and> prefix ''LV_'' (mat_name m)}.
               get_images_from_material (Some m))"
        using Some True by auto
      finally show ?thesis .
    next
      case False
      have "collect_images (a # mats) S = collect_images mats S"
        using Some False by simp
      also have "\<dots> = S \<union> (\<Union>m \<in> {m. Some m \<in> set mats \<and> prefix ''LV_'' (mat_name m)}.
               get_images_from_material (Some m))"
        by (rule Cons.IH)
      also have "\<dots> = S \<union> (\<Union>m \<in> {m. Some m \<in> set (a # mats) \<and> prefix ''LV_'' (mat_name m)}.
               get_images_from_material (Some m))"
        using Some False by auto
      finally show ?thesis .
    qed
  qed
qed

lemma finite_collect_images: "finite S \<Longrightarrow> finite (collect_images mats S)"
proof (induction mats arbitrary: S)
  case Nil
  then show ?case by simp
next
  case (Cons a mats)
  show ?case
  proof (cases a)
    case None
    then show ?thesis using Cons.IH[OF Cons.prems] by simp
  next
    case (Some m)
    have "finite (S \<union> get_images_from_material (Some m))"
      using Cons.prems finite_get_images_from_material by blast
    from Cons.IH[OF this] Cons.IH[OF Cons.prems] show ?thesis
      using Some by simp
  qed
qed

text \<open>The resize loop touches no image outside its list, and prints one line for each element.\<close>

lemma resize_images_frame:
  "r \<notin> set rs \<Longrightarrow> images (fst (resize_images H M rs (w, c))) r = images w r"
proof (induction rs arbitrary: w c)
  case Nil
  then show ?case by simp
next
  case (Cons a rs)
  then have ne: "r \<noteq> a" and nin: "r \<notin> set rs" by auto
  show ?case
    using Cons.IH[OF nin] ne
    by (auto simp: Let_def split_beta log_msg_def simp del: resize_image.simps
             split: sum.splits option.splits)
qed


text \<open>
  Claim C8. \<^verbatim>\<open>get_images_from_material\<close> returns the empty set for an absent material,
  for one with node-based shading disabled and for one without a node graph; otherwise
  it returns exactly the set of the images bound to the \<^verbatim>\<open>TEX_IMAGE\<close> nodes of the graph,
  nodes without an image being skipped. The result is a set: an image shared by several
  nodes is in it once, so it has at most as many elements as there are such nodes.
\<close>

theorem get_images_from_material_spec:
  "get_images_from_material None = {}
   \<and> (\<not> use_nodes mat \<or> node_tree mat = None \<longrightarrow> get_images_from_material (Some mat) = {})
   \<and> (use_nodes mat \<and> node_tree mat = Some nodes \<longrightarrow>
        get_images_from_material (Some mat) =
          {r. \<exists>n \<in> set nodes. node_type n = ''TEX_IMAGE'' \<and> node_image n = Some r}
      \<and> card (get_images_from_material (Some mat))
           \<le> length (filter (\<lambda>n. node_type n = ''TEX_IMAGE'' \<and> node_image n \<noteq> None) nodes))"
proof -
  have card_le: "card {r. \<exists>n \<in> set ns. node_type n = ''TEX_IMAGE'' \<and> node_image n = Some r}
      \<le> length (filter (\<lambda>n. node_type n = ''TEX_IMAGE'' \<and> node_image n \<noteq> None) ns)" for ns :: "node list"
  proof -
    let ?f = "filter (\<lambda>n. node_type n = ''TEX_IMAGE'' \<and> node_image n \<noteq> None) ns"
    have "{r. \<exists>n \<in> set ns. node_type n = ''TEX_IMAGE'' \<and> node_image n = Some r}
        = (\<lambda>n. the (node_image n)) ` set ?f"
      by (auto simp: image_iff) force
    then have "card {r. \<exists>n \<in> set ns. node_type n = ''TEX_IMAGE'' \<and> node_image n = Some r}
        \<le> card (set ?f)"
      by (simp add: card_image_le)
    also have "\<dots> \<le> length ?f" by (rule card_length)
    finally show ?thesis .
  qed
  show ?thesis
    using card_le[of nodes] by (auto simp: collect_node_images_eq)
qed

theorem get_images_from_material_spec_witness:
  "get_images_from_material (shared_materials ! 0) = {1}
   \<and> card (get_images_from_material (shared_materials ! 0)) \<le> 2"
proof -
  have a: "use_nodes (the (shared_materials ! 0))
      \<and> node_tree (the (shared_materials ! 0)) =
          Some [\<lparr>node_type = ''TEX_IMAGE'', node_image = Some 1\<rparr>,
                \<lparr>node_type = ''BSDF_PRINCIPLED'', node_image = None\<rparr>,
                \<lparr>node_type = ''TEX_IMAGE'', node_image = Some 1\<rparr>,
                \<lparr>node_type = ''TEX_IMAGE'', node_image = None\<rparr>]"
    by (simp add: shared_materials_def)
  have b: "shared_materials ! 0 = Some (the (shared_materials ! 0))"
    by (simp add: shared_materials_def)
  have c: "{r. \<exists>n \<in> set [\<lparr>node_type = ''TEX_IMAGE'', node_image = Some 1\<rparr>,
                \<lparr>node_type = ''BSDF_PRINCIPLED'', node_image = None\<rparr>,
                \<lparr>node_type = ''TEX_IMAGE'', node_image = Some 1\<rparr>,
                \<lparr>node_type = ''TEX_IMAGE'', node_image = None\<rparr>].
             node_type n = ''TEX_IMAGE'' \<and> node_image n = Some r} = {1::nat}"
    by auto
  from get_images_from_material_spec[of "the (shared_materials ! 0)"
      "[\<lparr>node_type = ''TEX_IMAGE'', node_image = Some 1\<rparr>,
        \<lparr>node_type = ''BSDF_PRINCIPLED'', node_image = None\<rparr>,
        \<lparr>node_type = ''TEX_IMAGE'', node_image = Some 1\<rparr>,
        \<lparr>node_type = ''TEX_IMAGE'', node_image = None\<rparr>]"] a
  have "get_images_from_material (Some (the (shared_materials ! 0))) = {1}
      \<and> card (get_images_from_material (Some (the (shared_materials ! 0)))) \<le> 2"
    unfolding c by simp
  then show ?thesis using b by simp
qed

text \<open>
  Claim C4, as stated, fails for a shared image: the material \<^verbatim>\<open>Other\<close> does not carry
  the prefix, yet its image 1 is also used by \<^verbatim>\<open>LV_body\<close>, so it is in the working set
  and is scaled from 2048 by 1024 to 512 by 256.
\<close>

theorem shared_image_outside_prefix_resized:
  "\<not> prefix ''LV_'' (mat_name other_material)
   \<and> Some other_material \<in> set shared_materials
   \<and> 1 \<in> get_images_from_material (Some other_material)
   \<and> 1 \<in> collect_images shared_materials {}
   \<and> img_size (images shared_world 1) = (2048, 1024)
   \<and> img_size (images (fst (resize_images demo_host 512
          (sorted_list_of_set (collect_images (materials shared_world) {})) (shared_world, 0))) 1)
       = (512, 256)"
  by code_simp

text \<open>
  Claim C4, amended. An image is in the working set if and only if some material whose
  name starts with exactly \<^verbatim>\<open>LV_\<close> (case-sensitive) refers to it: \<^verbatim>\<open>lv_wood\<close> does not
  select, \<^verbatim>\<open>LV_wood\<close> and \<^verbatim>\<open>LV_\<close> do. An image that no such material refers to is
  left as it is by the resize loop, whatever its size.
\<close>

theorem lv_prefix_selection:
  "(r \<in> collect_images mats {} \<longleftrightarrow>
      (\<exists>m. Some m \<in> set mats \<and> prefix ''LV_'' (mat_name m)
           \<and> r \<in> get_images_from_material (Some m)))
   \<and> \<not> prefix ''LV_'' ''lv_wood'' \<and> prefix ''LV_'' ''LV_wood'' \<and> prefix ''LV_'' ''LV_''
   \<and> (r \<notin> collect_images (materials w) {} \<longrightarrow>
        images (fst (resize_images H M
                  (sorted_list_of_set (collect_images (materials w) {})) (w, 0))) r
          = images w r)"
proof -
  have fin: "finite (collect_images (materials w) {})"
    by (rule finite_collect_images) simp
  have 1: "r \<in> collect_images mats {} \<longleftrightarrow>
      (\<exists>m. Some m \<in> set mats \<and> prefix ''LV_'' (mat_name m)
           \<and> r \<in> get_images_from_material (Some m))"
    unfolding collect_images_eq by blast
  have 2: "\<not> prefix ''LV_'' ''lv_wood''" "prefix ''LV_'' ''LV_wood''" "prefix ''LV_'' ''LV_''"
    by simp_all
  have 3: "images (fst (resize_images H M
                  (sorted_list_of_set (collect_images (materials w) {})) (w, 0))) r
          = images w r" if "r \<notin> collect_images (materials w) {}"
    by (rule resize_images_frame) (use that fin in simp)
  from 1 2 3 show ?thesis by blast
qed

theorem lv_prefix_selection_witness:
  "2 \<notin> collect_images (materials shared_world) {}
   \<and> images (fst (resize_images demo_host 512
          (sorted_list_of_set (collect_images (materials shared_world) {})) (shared_world, 0))) 2
       = images shared_world 2
   \<and> 1 \<in> collect_images shared_materials {}
   \<and> (\<exists>m. Some m \<in> set shared_materials \<and> prefix ''LV_'' (mat_name m)
           \<and> 1 \<in> get_images_from_material (Some m))"
proof -
  have a: "2 \<notin> collect_images (materials shared_world) {}" by code_simp
  have b: "1 \<in> collect_images shared_materials {}" by code_simp
  from lv_prefix_selection[of 2 "materials shared_world" shared_world demo_host 512]
    lv_prefix_selection[of 1 shared_materials shared_world demo_host 512] a b
  show ?thesis by blast
qed




section \<open>The per-file pipeline and the batch driver\<close>

lemma stdout_log_msg [simp]: "stdout (log_msg l w) = stdout w @ [l]"
  by (simp add: log_msg_def)

lemma path_exists_log_msg [simp]: "path_exists p (log_msg l w) = path_exists p w"
  by (simp add: log_msg_def path_exists_def)

lemma stdout_foldl_log_msg: "stdout (foldl (\<lambda>w l. log_msg l w) w ls) = stdout w @ ls"
  by (induction ls arbitrary: w) simp_all

text \<open>
  Claim C6. When the resize of an image raises, the loop prints a warning with the name
  of the image and goes on with the remaining images, with the same count of resized
  textures. Once the import has succeeded, \<^verbatim>\<open>process_model\<close> always reaches the
  creation of the output directory and the export, and its result depends on these two
  alone; when they succeed the driver counts the file as processed, not as failed.
\<close>

theorem image_failure_does_not_abort:
  "(resize_image (scale H) (Some (images w r)) M = Inl e \<longrightarrow>
      resize_images H M (r # rs) (w, n) =
        resize_images H M rs (log_msg (LWarning (img_name (images w r)) e) w, n))
   \<and> (read_factory_settings H (log_msg (LProcessing inp) w0) = Inr w2
        \<and> import_gltf H inp (case set_use_global_undo H False w2 of Inl x \<Rightarrow> w2 | Inr y \<Rightarrow> y)
            = Inr w4 \<longrightarrow>
      process_model H inp outp M w0 =
        (let R = resize_images H M (sorted_list_of_set (collect_images (materials w4) {})) (w4, 0);
             w6 = log_msg (LTexturesResized (snd R)) (fst R)
         in case mkdir H (butlast outp) w6 of
              Inl x \<Rightarrow> (Inl x, w6)
            | Inr w7 \<Rightarrow>
                (case export_gltf H outp w7 of
                   Inl x \<Rightarrow> (Inl x, w7)
                 | Inr w8 \<Rightarrow> (Inr (), log_msg (LExported outp) w8))))
   \<and> (relative_to f idir = Inr rel \<and> \<not> path_exists (odir @ rel) w
        \<and> process_model H f (odir @ rel) M w = (Inr (), w') \<longrightarrow>
      batch_loop H idir odir M (f # rest) (w, c) =
        batch_loop H idir odir M rest (log_msg LBlank w', c\<lparr>processed := processed c + 1\<rparr>))"
proof (intro conjI impI)
  assume "resize_image (scale H) (Some (images w r)) M = Inl e"
  then show "resize_images H M (r # rs) (w, n) =
        resize_images H M rs (log_msg (LWarning (img_name (images w r)) e) w, n)"
    by (simp add: split_beta del: resize_image.simps)
next
  assume "read_factory_settings H (log_msg (LProcessing inp) w0) = Inr w2
        \<and> import_gltf H inp (case set_use_global_undo H False w2 of Inl x \<Rightarrow> w2 | Inr y \<Rightarrow> y)
            = Inr w4"
  then show "process_model H inp outp M w0 =
        (let R = resize_images H M (sorted_list_of_set (collect_images (materials w4) {})) (w4, 0);
             w6 = log_msg (LTexturesResized (snd R)) (fst R)
         in case mkdir H (butlast outp) w6 of
              Inl x \<Rightarrow> (Inl x, w6)
            | Inr w7 \<Rightarrow>
                (case export_gltf H outp w7 of
                   Inl x \<Rightarrow> (Inl x, w7)
                 | Inr w8 \<Rightarrow> (Inr (), log_msg (LExported outp) w8)))"
    by (simp add: process_model_def Let_def split_beta)
next
  assume "relative_to f idir = Inr rel \<and> \<not> path_exists (odir @ rel) w
        \<and> process_model H f (odir @ rel) M w = (Inr (), w')"
  then show "batch_loop H idir odir M (f # rest) (w, c) =
        batch_loop H idir odir M rest (log_msg LBlank w', c\<lparr>processed := processed c + 1\<rparr>)"
    by simp
qed

theorem image_failure_does_not_abort_witness:
  "stdout (fst (resize_images failing_scale_host 512 [1] (shared_world, 0)))
     = [LWarning ''atlas'' (HostError ''no image data'')]
   \<and> fst (process_model failing_scale_host [''in'', ''a'', ''model1.glb'']
            ([''out''] @ [''a'', ''model1.glb'']) 512 demo_world) = Inr ()
   \<and> stdout (snd (process_model failing_scale_host [''in'', ''a'', ''model1.glb'']
            ([''out''] @ [''a'', ''model1.glb'']) 512 demo_world))
     = [LProcessing [''in'', ''a'', ''model1.glb''],
        LWarning ''atlas'' (HostError ''no image data''),
        LTexturesResized 0,
        LExported [''out'', ''a'', ''model1.glb'']]
   \<and> fst (batch_loop failing_scale_host [''in''] [''out''] 512 [[''in'', ''a'', ''model1.glb'']]
            (demo_world, \<lparr>processed = 0, skipped = 0, failed = 0\<rparr>))
     = Inr \<lparr>processed = 1, skipped = 0, failed = 0\<rparr>"
proof -
  let ?H = failing_scale_host
  let ?inp = "[''in'', ''a'', ''model1.glb'']"
  let ?outp = "[''out''] @ [''a'', ''model1.glb'']"
  let ?c0 = "\<lparr>processed = 0, skipped = 0, failed = 0\<rparr>"
  let ?w2 = "projr (read_factory_settings ?H (log_msg (LProcessing ?inp) demo_world))"
  let ?w3 = "case set_use_global_undo ?H False ?w2 of Inl x \<Rightarrow> ?w2 | Inr y \<Rightarrow> y"
  let ?w4 = "projr (import_gltf ?H ?inp ?w3)"
  let ?w' = "snd (process_model ?H ?inp ?outp 512 demo_world)"
  have h1: "resize_image (scale ?H) (Some (images shared_world 1)) 512
      = Inl (HostError ''no image data'')"
    by code_simp
  have eq1: "resize_images ?H 512 (1 # []) (shared_world, 0) =
      resize_images ?H 512 []
        (log_msg (LWarning (img_name (images shared_world 1)) (HostError ''no image data''))
           shared_world, 0)"
    using image_failure_does_not_abort[where H = "?H" and w = shared_world and r = 1
        and M = 512 and e = "HostError ''no image data''" and rs = "[]" and n = 0] h1
    by blast
  have A: "stdout (fst (resize_images ?H 512 [1] (shared_world, 0)))
     = [LWarning ''atlas'' (HostError ''no image data'')]"
    unfolding eq1 by code_simp
  have h2: "read_factory_settings ?H (log_msg (LProcessing ?inp) demo_world) = Inr ?w2"
    by (simp add: failing_scale_host_def demo_host_def)
  have h3: "import_gltf ?H ?inp ?w3 = Inr ?w4"
    by (simp add: failing_scale_host_def demo_host_def)
  have eq2: "process_model ?H ?inp ?outp 512 demo_world =
        (let R = resize_images ?H 512
                   (sorted_list_of_set (collect_images (materials ?w4) {})) (?w4, 0);
             w6 = log_msg (LTexturesResized (snd R)) (fst R)
         in case mkdir ?H (butlast ?outp) w6 of
              Inl x \<Rightarrow> (Inl x, w6)
            | Inr w7 \<Rightarrow>
                (case export_gltf ?H ?outp w7 of
                   Inl x \<Rightarrow> (Inl x, w7)
                 | Inr w8 \<Rightarrow> (Inr (), log_msg (LExported ?outp) w8)))"
    using image_failure_does_not_abort[where H = "?H" and inp = "?inp" and outp = "?outp"
        and M = 512 and ?w0.0 = demo_world and ?w2.0 = "?w2" and ?w4.0 = "?w4"] h2 h3
    by blast
  have B: "fst (process_model ?H ?inp ?outp 512 demo_world) = Inr ()"
    unfolding eq2 by code_simp
  have C: "stdout (snd (process_model ?H ?inp ?outp 512 demo_world))
     = [LProcessing [''in'', ''a'', ''model1.glb''],
        LWarning ''atlas'' (HostError ''no image data''),
        LTexturesResized 0,
        LExported [''out'', ''a'', ''model1.glb'']]"
    unfolding eq2 by code_simp
  have h4: "relative_to ?inp [''in''] = Inr [''a'', ''model1.glb'']"
    and h5: "\<not> path_exists ([''out''] @ [''a'', ''model1.glb'']) demo_world"
    by (simp_all add: relative_to_def path_exists_def demo_world_def)
  have h6: "process_model ?H ?inp ?outp 512 demo_world = (Inr (), ?w')"
    using B by (metis prod.collapse)
  have eq3: "batch_loop ?H [''in''] [''out''] 512 (?inp # []) (demo_world, ?c0) =
      batch_loop ?H [''in''] [''out''] 512 []
        (log_msg LBlank ?w', ?c0\<lparr>processed := processed ?c0 + 1\<rparr>)"
    using image_failure_does_not_abort[where H = "?H" and f = "?inp" and idir = "[''in'']"
        and rel = "[''a'', ''model1.glb'']" and odir = "[''out'']" and w = demo_world
        and M = 512 and w' = "?w'" and rest = "[]" and c = "?c0"] h4 h5 h6
    by blast
  have D: "fst (batch_loop ?H [''in''] [''out''] 512 [?inp] (demo_world, ?c0))
     = Inr \<lparr>processed = 1, skipped = 0, failed = 0\<rparr>"
    unfolding eq3 by simp
  from A B C D show ?thesis by blast
qed



text \<open>The loop adds one to exactly one counter for each file.\<close>

lemma batch_loop_counters:
  "batch_loop H idir odir M files (w, c) = (Inr c', w') \<Longrightarrow>
     processed c' + skipped c' + failed c' = processed c + skipped c + failed c + length files"
proof (induction files arbitrary: w c)
  case Nil
  then show ?case by simp
next
  case (Cons f files)
  from Cons.prems obtain rel where rel: "relative_to f idir = Inr rel"
    by (cases "relative_to f idir") auto
  show ?case
  proof (cases "path_exists (odir @ rel) w")
    case True
    with Cons.prems rel
    have "batch_loop H idir odir M files
            (log_msg LBlank (log_msg (LSkipping rel) w), c\<lparr>skipped := skipped c + 1\<rparr>) = (Inr c', w')"
      by simp
    from Cons.IH[OF this] show ?thesis by simp
  next
    case False
    obtain res w1 where pm: "process_model H f (odir @ rel) M w = (res, w1)"
      by (cases "process_model H f (odir @ rel) M w")
    show ?thesis
    proof (cases res)
      case (Inl e)
      with Cons.prems rel False pm
      have "batch_loop H idir odir M files
              (log_msg LBlank (log_msg (LError rel e) w1), c\<lparr>failed := failed c + 1\<rparr>) = (Inr c', w')"
        by simp
      from Cons.IH[OF this] show ?thesis by simp
    next
      case (Inr u)
      with Cons.prems rel False pm
      have "batch_loop H idir odir M files
              (log_msg LBlank w1, c\<lparr>processed := processed c + 1\<rparr>) = (Inr c', w')"
        by simp
      from Cons.IH[OF this] show ?thesis by simp
    qed
  qed
qed

lemma batch_loop_single:
  assumes "batch_loop H idir odir M [f] (w, c) = (Inr c1, w1)"
  shows "c1 = c\<lparr>skipped := skipped c + 1\<rparr>
       \<or> c1 = c\<lparr>processed := processed c + 1\<rparr>
       \<or> c1 = c\<lparr>failed := failed c + 1\<rparr>"
proof -
  from assms obtain rel where rel: "relative_to f idir = Inr rel"
    by (cases "relative_to f idir") auto
  obtain res w2 where pm: "process_model H f (odir @ rel) M w = (res, w2)"
    by (cases "process_model H f (odir @ rel) M w")
  show ?thesis
    using assms rel pm
    by (cases "path_exists (odir @ rel) w"; cases res) auto
qed

lemma run_batch_summary:
  assumes "mkdir H (resolve H od0) w = Inr wm"
    and "rglob_glb H (resolve H id0) wm \<noteq> []"
    and "run_batch H id0 od0 M w = (Inr (), wend)"
  shows "\<exists>p s f. suffix [LRule, LDone, LRule, LProcessed p, LSkipped s, LFailed f] (stdout wend)
            \<and> p + s + f = length (rglob_glb H (resolve H id0) wm)"
proof -
  let ?files = "sort (rglob_glb H (resolve H id0) wm)"
  let ?w2 = "foldl (\<lambda>w l. log_msg l w) wm
               [LRule, LTitle, LRule, LInput (resolve H id0), LOutput (resolve H od0),
                LMax M, LFiles (length ?files), LBlank]"
  have ne: "?files \<noteq> []" using assms(2) by (metis length_0_conv length_sort)
  have ex: "path_exists (resolve H id0) wm"
    using assms by (auto simp: run_batch_def Let_def split: if_splits)
  obtain res w3 where bl: "batch_loop H (resolve H id0) (resolve H od0) M ?files
       (?w2, \<lparr>processed = 0, skipped = 0, failed = 0\<rparr>) = (res, w3)"
    by (cases "batch_loop H (resolve H id0) (resolve H od0) M ?files
       (?w2, \<lparr>processed = 0, skipped = 0, failed = 0\<rparr>)")
  have rb: "run_batch H id0 od0 M w =
      (case res of Inl e \<Rightarrow> (Inl e, w3)
       | Inr c \<Rightarrow> (Inr (), foldl (\<lambda>w l. log_msg l w) w3
            [LRule, LDone, LRule, LProcessed (processed c), LSkipped (skipped c), LFailed (failed c)]))"
    using assms(1) ex ne bl by (simp add: run_batch_def Let_def del: foldl.simps)
  with assms(3) obtain c where c: "res = Inr c"
    and wend: "wend = foldl (\<lambda>w l. log_msg l w) w3
            [LRule, LDone, LRule, LProcessed (processed c), LSkipped (skipped c), LFailed (failed c)]"
    by (cases res) auto
  have "processed c + skipped c + failed c = length ?files"
    using batch_loop_counters[OF bl[unfolded c]] by simp
  moreover have "suffix [LRule, LDone, LRule, LProcessed (processed c), LSkipped (skipped c),
       LFailed (failed c)] (stdout wend)"
    unfolding wend stdout_foldl_log_msg by (rule suffixI) simp
  ultimately show ?thesis by (metis length_sort)
qed

text \<open>
  Claim C10. When the loop over the files completes, the sum of the three counters has
  grown by the number of the files, each file having added one to exactly one of them;
  and when \<^verbatim>\<open>main\<close> completes on a non-empty list of files, the output ends with the
  summary of three counters whose sum is the number of \<^verbatim>\<open>.glb\<close> files found.
\<close>

theorem counters_partition_files:
  "(batch_loop H idir odir M files (w, c) = (Inr c', w') \<longrightarrow>
      processed c' + skipped c' + failed c'
        = processed c + skipped c + failed c + length files)
   \<and> (batch_loop H idir odir M [f] (w, c) = (Inr c1, w1) \<longrightarrow>
        c1 = c\<lparr>skipped := skipped c + 1\<rparr>
      \<or> c1 = c\<lparr>processed := processed c + 1\<rparr>
      \<or> c1 = c\<lparr>failed := failed c + 1\<rparr>)
   \<and> (mkdir H (resolve H od0) w = Inr wm \<and> rglob_glb H (resolve H id0) wm \<noteq> []
        \<and> run_batch H id0 od0 M w = (Inr (), wend) \<longrightarrow>
        (\<exists>p s f. suffix [LRule, LDone, LRule, LProcessed p, LSkipped s, LFailed f] (stdout wend)
            \<and> p + s + f = length (rglob_glb H (resolve H id0) wm)))"
proof (intro conjI impI)
  assume "batch_loop H idir odir M files (w, c) = (Inr c', w')"
  then show "processed c' + skipped c' + failed c'
        = processed c + skipped c + failed c + length files"
    by (rule batch_loop_counters)
next
  assume "batch_loop H idir odir M [f] (w, c) = (Inr c1, w1)"
  then show "c1 = c\<lparr>skipped := skipped c + 1\<rparr>
      \<or> c1 = c\<lparr>processed := processed c + 1\<rparr>
      \<or> c1 = c\<lparr>failed := failed c + 1\<rparr>"
    by (rule batch_loop_single)
next
  assume "mkdir H (resolve H od0) w = Inr wm \<and> rglob_glb H (resolve H id0) wm \<noteq> []
        \<and> run_batch H id0 od0 M w = (Inr (), wend)"
  then show "\<exists>p s f. suffix [LRule, LDone, LRule, LProcessed p, LSkipped s, LFailed f] (stdout wend)
            \<and> p + s + f = length (rglob_glb H (resolve H id0) wm)"
    using run_batch_summary by blast
qed

theorem counters_partition_files_witness:
  "fst (run_batch demo_host [''in''] [''out''] 512 demo_world) = Inr ()
   \<and> (\<exists>p s f. suffix [LRule, LDone, LRule, LProcessed p, LSkipped s, LFailed f]
                   (stdout (snd (run_batch demo_host [''in''] [''out''] 512 demo_world)))
            \<and> p + s + f = 2)"
proof -
  let ?wm = "demo_world\<lparr>fs := (fs demo_world)([''out''] \<mapsto> Directory)\<rparr>"
  have h1: "mkdir demo_host (resolve demo_host [''out'']) demo_world = Inr ?wm"
    by (simp add: demo_host_def)
  have h2: "rglob_glb demo_host (resolve demo_host [''in'']) ?wm \<noteq> []"
    and n: "length (rglob_glb demo_host (resolve demo_host [''in'']) ?wm) = 2"
    by (simp_all add: demo_host_def)
  have ok: "fst (run_batch demo_host [''in''] [''out''] 512 demo_world) = Inr ()"
    by code_simp
  then have h3: "run_batch demo_host [''in''] [''out''] 512 demo_world
      = (Inr (), snd (run_batch demo_host [''in''] [''out''] 512 demo_world))"
    by (metis prod.collapse)
  from counters_partition_files[where H = demo_host and w = demo_world and wm = "?wm"
          and ?od0.0 = "[''out'']" and ?id0.0 = "[''in'']" and M = 512
          and wend = "snd (run_batch demo_host [''in''] [''out''] 512 demo_world)"]
    h1 h2 h3
  have "\<exists>p s f. suffix [LRule, LDone, LRule, LProcessed p, LSkipped s, LFailed f]
                   (stdout (snd (run_batch demo_host [''in''] [''out''] 512 demo_world)))
            \<and> p + s + f = length (rglob_glb demo_host (resolve demo_host [''in'']) ?wm)"
    by blast
  with ok show ?thesis unfolding n by blast
qed





end
